theory Spec2Isabelle
  imports Complex_Main "HOL-Library.List_Lexorder" "HOL-Library.Sublist" "HOL-Library.AList"
begin

section \<open>Text\<close>

text \<open>
  A Python \<open>str\<close> is a sequence of Unicode code points, and \<open>strip\<close>, \<open>startswith\<close>,
  slicing and \<open><\<close> on strings all work on code points. The two section headers of a
  record file start with a code point beyond one byte, so a string is modelled as a list of
  code points (natural numbers) and not as a list of 8-bit characters. String comparison
  is the lexicographic order on these lists.
\<close>

type_synonym ustring = "nat list"

definition ascii :: "string \<Rightarrow> ustring" where
  "ascii s = map of_char s"

text \<open>
  \<open>str.strip()\<close> without arguments removes the code points for which \<open>str.isspace\<close>
  holds: the ASCII controls 9 to 13 and 28 to 31, the space, and the Unicode white space
  U+0085, U+00A0, U+1680, U+2000 to U+200A, U+2028, U+2029, U+202F, U+205F and U+3000.
\<close>

definition is_space :: "nat \<Rightarrow> bool" where
  "is_space c \<longleftrightarrow>
     (9 \<le> c \<and> c \<le> 13) \<or> (28 \<le> c \<and> c \<le> 32) \<or> c = 133 \<or> c = 160 \<or> c = 5760 \<or>
     (8192 \<le> c \<and> c \<le> 8202) \<or> c = 8232 \<or> c = 8233 \<or> c = 8239 \<or> c = 8287 \<or> c = 12288"

definition lstrip :: "ustring \<Rightarrow> ustring" where
  "lstrip s = dropWhile is_space s"

definition rstrip :: "ustring \<Rightarrow> ustring" where
  "rstrip s = rev (dropWhile is_space (rev s))"

definition strip :: "ustring \<Rightarrow> ustring" where
  "strip s = rstrip (lstrip s)"

definition startswith :: "ustring \<Rightarrow> ustring \<Rightarrow> bool" where
  "startswith s p \<longleftrightarrow> prefix p s"

definition endswith :: "ustring \<Rightarrow> ustring \<Rightarrow> bool" where
  "endswith s p \<longleftrightarrow> suffix p s"

section \<open>Errors\<close>

text \<open>
  The exceptions that the modelled functions can raise: decoding a file that is not valid
  UTF-8, and dividing by zero.
\<close>

datatype py_error = UnicodeDecodeError | ZeroDivisionError

section \<open>Dates and paths\<close>

text \<open>
  A \<open>datetime.date\<close> has a year from 1 to 9999, a month and a day, and two dates compare
  as the triples (year, month, day) do. \<open>date_str\<close> is \<open>strftime("%Y-%m-%d")\<close> as the
  C library of Linux formats it: the year in decimal without padding (\<open>999-12-31\<close> for
  the last day of the year 999), the month and the day in two digits padded with a zero.
  From the year 1000 on the year has four digits and the text is the ISO date.
\<close>

record date =
  year :: nat
  month :: nat
  day :: nat

definition date_le :: "date \<Rightarrow> date \<Rightarrow> bool" where
  "date_le a b \<longleftrightarrow>
     year a < year b \<or> (year a = year b \<and> (month a < month b \<or> (month a = month b \<and> day a \<le> day b)))"

definition digit :: "nat \<Rightarrow> nat" where
  "digit k = 48 + k mod 10"

definition zpad2 :: "nat \<Rightarrow> ustring" where
  "zpad2 n = [digit (n div 10), digit n]"

fun decimal :: "nat \<Rightarrow> ustring" where
  "decimal n = (if n < 10 then [digit n] else decimal (n div 10) @ [digit n])"

declare decimal.simps [simp del]

definition date_str :: "date \<Rightarrow> ustring" where
  "date_str d = decimal (year d) @ ascii ''-'' @ zpad2 (month d) @ ascii ''-'' @ zpad2 (day d)"

text \<open>\<open>os.path.join\<close> of two components and \<open>os.path.basename\<close>, as \<open>posixpath\<close> has them.\<close>

definition path_join :: "ustring \<Rightarrow> ustring \<Rightarrow> ustring" where
  "path_join a b =
     (if startswith b (ascii ''/'') then b
      else if a = [] \<or> endswith a (ascii ''/'') then a @ b
      else a @ ascii ''/'' @ b)"


definition DATA_DIR :: ustring where
  "DATA_DIR = ascii ''tasks_data''"



definition daily_file_path :: "date \<Rightarrow> ustring" where
  "daily_file_path d = path_join DATA_DIR (date_str d @ ascii ''.txt'')"

section \<open>The files of the data directory\<close>

text \<open>
  The program reads a text file only through \<open>open(path, "r", encoding="utf-8")\<close>, which
  decodes strictly: the bytes of a file either are valid UTF-8 and decode to a text, or
  reading them raises \<open>UnicodeDecodeError\<close>. A file is modelled by which of the two it is,
  and by the text in the first case. What the program writes is text, encoded as UTF-8.

  The files are an association list from path to content, in the order in which the
  operating system lists them (which \<open>glob\<close> does not promise to be sorted). A path that
  has no entry does not exist (\<open>map_of fs path = None\<close>). Opening a file for writing
  replaces its content or creates it. Failures of the file system itself (a full disk, a
  missing permission) are outside this model.
\<close>

datatype file_content = Utf8 ustring | NotUtf8

type_synonym files = "(ustring \<times> file_content) list"

definition write_file :: "ustring \<Rightarrow> ustring \<Rightarrow> files \<Rightarrow> files" where
  "write_file path content fs = AList.update path (Utf8 content) fs"

definition read_text :: "file_content \<Rightarrow> py_error + ustring" where
  "read_text c = (case c of Utf8 content \<Rightarrow> Inr content | NotUtf8 \<Rightarrow> Inl UnicodeDecodeError)"

text \<open>
  Reading in text mode translates the line ends \<open>\r\n\<close> and \<open>\r\<close> to \<open>\n\<close> (the flag
  remembers a pending carriage return), and \<open>readlines\<close> cuts the text after every
  \<open>\n\<close>, keeping it; a last line without \<open>\n\<close> is a line too.
\<close>

fun translate_newlines :: "bool \<Rightarrow> ustring \<Rightarrow> ustring" where
  "translate_newlines pendingcr [] = []"
| "translate_newlines pendingcr (c # cs) =
     (if c = 13 then 10 # translate_newlines True cs
      else if c = 10 then (if pendingcr then translate_newlines False cs
                           else 10 # translate_newlines False cs)
      else c # translate_newlines False cs)"

fun split_keepends :: "ustring \<Rightarrow> ustring \<Rightarrow> ustring list" where
  "split_keepends cur [] = (if cur = [] then [] else [cur])"
| "split_keepends cur (c # cs) =
     (if c = 10 then (cur @ [c]) # split_keepends [] cs
      else split_keepends (cur @ [c]) cs)"

definition readlines :: "ustring \<Rightarrow> ustring list" where
  "readlines content = split_keepends [] (translate_newlines False content)"

section \<open>Daily record files\<close>

definition COMPLETED_HEADER :: ustring where
  "COMPLETED_HEADER = 9989 # ascii '' Completed Tasks''"

definition INCOMPLETE_HEADER :: ustring where
  "INCOMPLETE_HEADER = 10060 # ascii '' Incomplete Tasks''"

datatype section_tag = SecCompleted | SecIncomplete

type_synonym parse_state = "section_tag option \<times> ustring list \<times> ustring list"

text \<open>One pass of the loop body of \<open>parse_txt_day\<close> over a stripped line.\<close>

definition parse_line :: "parse_state \<Rightarrow> ustring \<Rightarrow> parse_state" where
  "parse_line st line =
     (case st of (sec, completed_ts, incomplete_ts) \<Rightarrow>
        if startswith line COMPLETED_HEADER then (Some SecCompleted, completed_ts, incomplete_ts)
        else if startswith line INCOMPLETE_HEADER then (Some SecIncomplete, completed_ts, incomplete_ts)
        else if startswith line (ascii ''- '') then
          (let task = strip (drop 2 line) in
             case sec of
               Some SecCompleted \<Rightarrow> (sec, completed_ts @ [task], incomplete_ts)
             | Some SecIncomplete \<Rightarrow> (sec, completed_ts, incomplete_ts @ [task])
             | None \<Rightarrow> (sec, completed_ts, incomplete_ts))
        else (sec, completed_ts, incomplete_ts))"

fun parse_lines :: "parse_state \<Rightarrow> ustring list \<Rightarrow> parse_state" where
  "parse_lines st [] = st"
| "parse_lines st (line # lns) = parse_lines (parse_line st line) lns"

definition parse_txt_day :: "files \<Rightarrow> ustring \<Rightarrow> py_error + ustring list \<times> ustring list" where
  "parse_txt_day fs path =
     (case map_of fs path of
        None \<Rightarrow> Inr ([], [])
      | Some c \<Rightarrow>
          (case read_text c of
             Inl e \<Rightarrow> Inl e
           | Inr content \<Rightarrow>
               (case parse_lines (None, [], []) (map strip (readlines content)) of
                  (sec, completed_ts, incomplete_ts) \<Rightarrow> Inr (completed_ts, incomplete_ts))))"

definition bullets :: "ustring list \<Rightarrow> ustring" where
  "bullets ts = concat (map (\<lambda>t. ascii ''- '' @ t @ [10]) ts)"

definition write_daily_file :: "date \<Rightarrow> ustring list \<Rightarrow> ustring list \<Rightarrow> files \<Rightarrow> files" where
  "write_daily_file d completed_ts incomplete_ts fs =
     write_file (daily_file_path d)
       (ascii ''===== '' @ date_str d @ ascii '' ====='' @ [10]
        @ COMPLETED_HEADER @ ascii '':'' @ [10]
        @ (if completed_ts \<noteq> [] then bullets completed_ts else ascii ''None'' @ [10])
        @ INCOMPLETE_HEADER @ ascii '':'' @ [10]
        @ (if incomplete_ts \<noteq> [] then bullets incomplete_ts else ascii ''None'' @ [10]))
       fs"

section \<open>Finding the latest record and carrying tasks over\<close>






section \<open>The history ledger\<close>

text \<open>
  A row of the ledger has the columns \<open>date\<close>, \<open>task\<close> and \<open>status\<close>. The date is a
  string in the file and in the frame that \<open>append_to_history\<close> builds, and a date value
  after \<open>load_history\<close> has coerced the column, so the row type is parametric in it.

  The ledger is stored through pandas, which is not part of the program: the stored form
  of a frame is left abstract (the type \<open>'csv\<close>), and \<open>to_csv\<close>, \<open>read_csv\<close> and
  \<open>to_datetime\<close> are parameters. \<open>read_csv\<close> and \<open>to_datetime\<close> may raise; \<open>to_datetime\<close>
  converts a whole column. A ledger file that is absent is \<open>None\<close>.
\<close>

record 'd row =
  date :: 'd
  task :: ustring
  status :: ustring

definition ensure_history_csv :: "('d row list \<Rightarrow> 'csv) \<Rightarrow> 'csv option \<Rightarrow> 'csv option" where
  "ensure_history_csv to_csv hist = (case hist of None \<Rightarrow> Some (to_csv []) | Some c \<Rightarrow> Some c)"

definition history_rows :: "date \<Rightarrow> ustring list \<Rightarrow> ustring list \<Rightarrow> ustring row list" where
  "history_rows d completed_ts incomplete_ts =
     (let rows = [];
          rows = foldl (\<lambda>rows t. rows @ [\<lparr>date = date_str d, task = t, status = ascii ''completed''\<rparr>])
                   rows completed_ts;
          rows = foldl (\<lambda>rows t. rows @ [\<lparr>date = date_str d, task = t, status = ascii ''incomplete''\<rparr>])
                   rows incomplete_ts
      in rows)"

definition append_to_history ::
  "('csv \<Rightarrow> 'e + ustring row list) \<Rightarrow> (ustring row list \<Rightarrow> 'csv) \<Rightarrow>
   date \<Rightarrow> ustring list \<Rightarrow> ustring list \<Rightarrow> 'csv option \<Rightarrow> 'e + 'csv option" where
  "append_to_history read_csv to_csv d completed_ts incomplete_ts hist =
     (let hist = ensure_history_csv to_csv hist;
          rows = history_rows d completed_ts incomplete_ts
      in if rows \<noteq> [] then
           (case hist of
              Some c \<Rightarrow>
                (case read_csv c of
                   Inl e \<Rightarrow> Inl e
                 | Inr df_old \<Rightarrow> Inr (Some (to_csv (df_old @ rows))))
            | None \<Rightarrow> Inr (Some (to_csv rows)))
         else Inr hist)"

text \<open>
  The body of the \<open>try\<close> block of \<open>load_history\<close>: parsing the file and converting the
  date column can each raise. \<open>load_history\<close> itself catches every exception of the block
  and falls back to the empty frame; it returns the ledger file too, which
  \<open>ensure_history_csv\<close> may have created. A frame that lacks the date column makes the
  lookup of the column raise inside the same block; this is a failure of the conversion
  step here. After \<open>ensure_history_csv\<close> the file exists; were it absent, reading it would
  raise inside the block, hence the empty frame in that branch.
\<close>

definition load_history_try ::
  "('csv \<Rightarrow> 'e + ustring row list) \<Rightarrow> (ustring list \<Rightarrow> 'e + date list) \<Rightarrow>
   'csv \<Rightarrow> 'e + date row list" where
  "load_history_try read_csv to_datetime c =
     (case read_csv c of
        Inl e \<Rightarrow> Inl e
      | Inr df \<Rightarrow>
          (case to_datetime (map date df) of
             Inl e \<Rightarrow> Inl e
           | Inr ds \<Rightarrow> Inr (map (\<lambda>(d, r). \<lparr>date = d, task = task r, status = status r\<rparr>) (zip ds df))))"

definition load_history ::
  "('csv \<Rightarrow> 'e + ustring row list) \<Rightarrow> (ustring list \<Rightarrow> 'e + date list) \<Rightarrow>
   (ustring row list \<Rightarrow> 'csv) \<Rightarrow> 'csv option \<Rightarrow> 'e + ('csv option \<times> date row list)" where
  "load_history read_csv to_datetime to_csv hist =
     (let hist = ensure_history_csv to_csv hist
      in case hist of
           None \<Rightarrow> Inr (hist, [])
         | Some c \<Rightarrow>
             (case load_history_try read_csv to_datetime c of
                Inl e \<Rightarrow> Inr (hist, [])
              | Inr df \<Rightarrow> Inr (hist, df)))"

section \<open>Statistics of a date range\<close>

text \<open>
  The counts are Python integers. The rate is a float in the program; it is modelled as a
  real number, so the rounding of the division and of the product is not part of the
  model. Division is written as the partial operation it is, so that a division by zero
  would show in the result of \<open>summarize_range\<close>.
\<close>

definition truediv :: "int \<Rightarrow> int \<Rightarrow> py_error + real" where
  "truediv a b = (if b = 0 then Inl ZeroDivisionError else Inr (real_of_int a / real_of_int b))"

record stats =
  days_tracked :: int
  completed :: int
  incomplete :: int
  total :: int
  completion_rate :: real

definition in_range :: "date \<Rightarrow> date \<Rightarrow> date row \<Rightarrow> bool" where
  "in_range start end_date r \<longleftrightarrow> date_le start (date r) \<and> date_le (date r) end_date"

definition summarize_range :: "date row list \<Rightarrow> date \<Rightarrow> date \<Rightarrow> py_error + stats" where
  "summarize_range df start end_date =
     (let sub = filter (in_range start end_date) df;
          n_completed = int (length (filter (\<lambda>r. status r = ascii ''completed'') sub));
          n_incomplete = int (length (filter (\<lambda>r. status r = ascii ''incomplete'') sub))
      in case (if n_completed + n_incomplete \<noteq> 0
               then (case truediv n_completed (n_completed + n_incomplete) of
                       Inl e \<Rightarrow> Inl e
                     | Inr q \<Rightarrow> Inr (q * 100))
               else Inr 0) of
           Inl e \<Rightarrow> Inl e
         | Inr rate \<Rightarrow>
             Inr \<lparr>days_tracked = int (length (remdups (map date sub))),
                  completed = n_completed,
                  incomplete = n_incomplete,
                  total = n_completed + n_incomplete,
                  completion_rate = rate\<rparr>)"

section \<open>Predicates of the specification\<close>

text \<open>
  The data model asks that a task name be non-empty and trimmed, and a task entered in the
  interface is one line. The predicates below name the lines that the parser acts on.
\<close>

definition valid_task :: "ustring \<Rightarrow> bool" where
  "valid_task t \<longleftrightarrow> t \<noteq> [] \<and> strip t = t \<and> 10 \<notin> set t \<and> 13 \<notin> set t"

definition is_header :: "ustring \<Rightarrow> bool" where
  "is_header line \<longleftrightarrow> startswith line COMPLETED_HEADER \<or> startswith line INCOMPLETE_HEADER"

definition is_bullet :: "ustring \<Rightarrow> bool" where
  "is_bullet line \<longleftrightarrow> startswith line (ascii ''- '')"






text \<open>
  The rows that the ledger holds, as pandas reads them; an absent ledger holds none.
\<close>

definition ledger_rows :: "('csv \<Rightarrow> 'e + ustring row list) \<Rightarrow> 'csv option \<Rightarrow> 'e + ustring row list" where
  "ledger_rows read_csv hist = (case hist of None \<Rightarrow> Inr [] | Some c \<Rightarrow> read_csv c)"





section \<open>Properties of stripping\<close>

lemma lstrip_id: "s \<noteq> [] \<Longrightarrow> \<not> is_space (hd s) \<Longrightarrow> lstrip s = s"
  by (cases s) (simp_all add: lstrip_def)

lemma rstrip_id: "s \<noteq> [] \<Longrightarrow> \<not> is_space (last s) \<Longrightarrow> rstrip s = s"
  by (cases s rule: rev_cases) (simp_all add: rstrip_def)

lemma rstrip_spaces: "\<forall>c \<in> set ws. is_space c \<Longrightarrow> rstrip (s @ ws) = rstrip s"
proof -
  assume "\<forall>c \<in> set ws. is_space c"
  then have "dropWhile is_space (rev ws @ rev s) = dropWhile is_space (rev s)"
    by (intro dropWhile_append2) simp
  then show ?thesis by (simp add: rstrip_def)
qed

lemma rstrip_keeps:
  assumes "a \<noteq> []" and "\<not> is_space (last a)"
  shows "\<exists>y. rstrip (a @ x) = a @ y"
proof -
  have "\<exists>z. dropWhile is_space (rev x @ rev a) = z @ rev a"
  proof (cases "\<forall>c \<in> set (rev x). is_space c")
    case True
    then have "dropWhile is_space (rev x @ rev a) = dropWhile is_space (rev a)"
      by (intro dropWhile_append2) simp
    also from assms have "\<dots> = rev a" by (cases a rule: rev_cases) simp_all
    finally show ?thesis by simp
  next
    case False
    then obtain c where "c \<in> set (rev x)" "\<not> is_space c" by blast
    then have "dropWhile is_space (rev x @ rev a) = dropWhile is_space (rev x) @ rev a"
      by (simp add: dropWhile_append1)
    then show ?thesis by blast
  qed
  then obtain z where "dropWhile is_space (rev x @ rev a) = z @ rev a" ..
  then have "rstrip (a @ x) = a @ rev z" by (simp add: rstrip_def)
  then show ?thesis ..
qed

lemma strip_line:
  assumes "s \<noteq> []" and "\<not> is_space (hd s)" and "\<not> is_space (last s)"
  shows "strip (s @ [10]) = s"
proof -
  from assms have "lstrip (s @ [10]) = s @ [10]" by (simp add: lstrip_id)
  moreover have "rstrip (s @ [10]) = rstrip s" by (rule rstrip_spaces) (simp add: is_space_def)
  ultimately show ?thesis using assms by (simp add: strip_def rstrip_id)
qed

lemma lstrip_hd: "lstrip s = [] \<or> \<not> is_space (hd (lstrip s))"
  unfolding lstrip_def using hd_dropWhile [of is_space s] by blast

lemma rstrip_last: "rstrip s = [] \<or> \<not> is_space (last (rstrip s))"
proof (cases "dropWhile is_space (rev s) = []")
  case True
  then show ?thesis by (simp add: rstrip_def)
next
  case False
  then have "\<not> is_space (hd (dropWhile is_space (rev s)))" by (rule hd_dropWhile)
  with False show ?thesis by (simp add: rstrip_def last_rev)
qed

lemma rstrip_hd: "rstrip s \<noteq> [] \<Longrightarrow> hd (rstrip s) = hd s"
proof -
  assume ne: "rstrip s \<noteq> []"
  have "rev s = takeWhile is_space (rev s) @ dropWhile is_space (rev s)" by simp
  then have "s = rev (dropWhile is_space (rev s)) @ rev (takeWhile is_space (rev s))"
    by (metis rev_append rev_rev_ident)
  then have "s = rstrip s @ rev (takeWhile is_space (rev s))" by (simp add: rstrip_def)
  with ne show ?thesis by (metis hd_append2)
qed

lemma strip_ends: "strip s = [] \<or> (\<not> is_space (hd (strip s)) \<and> \<not> is_space (last (strip s)))"
proof (cases "strip s = []")
  case True
  then show ?thesis by simp
next
  case False
  then have ne: "rstrip (lstrip s) \<noteq> []" by (simp add: strip_def)
  then have "lstrip s \<noteq> []" by (auto simp: rstrip_def)
  with lstrip_hd [of s] have "\<not> is_space (hd (lstrip s))" by blast
  with rstrip_hd [OF ne] have "\<not> is_space (hd (strip s))" by (simp add: strip_def)
  moreover from rstrip_last [of "lstrip s"] ne have "\<not> is_space (last (strip s))"
    by (simp add: strip_def)
  ultimately show ?thesis by blast
qed



lemma strip_fixed_ends: "strip t = t \<Longrightarrow> t \<noteq> [] \<Longrightarrow> \<not> is_space (hd t) \<and> \<not> is_space (last t)"
  using strip_ends [of t] by simp

section \<open>Reading a record file back\<close>

subsection \<open>Lines\<close>

lemma translate_newlines_line:
  "10 \<notin> set l \<Longrightarrow> 13 \<notin> set l \<Longrightarrow>
   translate_newlines False (l @ 10 # rest) = l @ 10 # translate_newlines False rest"
  by (induction l) auto

lemma split_keepends_line:
  "10 \<notin> set l \<Longrightarrow> split_keepends cur (l @ 10 # rest) = (cur @ l @ [10]) # split_keepends [] rest"
  by (induction l arbitrary: cur) auto

lemma readlines_Nil: "readlines [] = []"
  by (simp add: readlines_def)

lemma readlines_line:
  "10 \<notin> set l \<Longrightarrow> 13 \<notin> set l \<Longrightarrow> readlines (l @ 10 # rest) = (l @ [10]) # readlines rest"
  by (simp add: readlines_def translate_newlines_line split_keepends_line)

lemma headers_not_space:
  "\<not> is_space (hd COMPLETED_HEADER)" "\<not> is_space (last COMPLETED_HEADER)"
  "\<not> is_space (hd INCOMPLETE_HEADER)" "\<not> is_space (last INCOMPLETE_HEADER)"
  "COMPLETED_HEADER \<noteq> []" "INCOMPLETE_HEADER \<noteq> []"
  by (simp_all add: COMPLETED_HEADER_def INCOMPLETE_HEADER_def ascii_def is_space_def)

lemma headers_no_newline:
  "10 \<notin> set COMPLETED_HEADER" "13 \<notin> set COMPLETED_HEADER"
  "10 \<notin> set INCOMPLETE_HEADER" "13 \<notin> set INCOMPLETE_HEADER"
  by (simp_all add: COMPLETED_HEADER_def INCOMPLETE_HEADER_def ascii_def)

lemma startswith_hd: "startswith s p \<Longrightarrow> p \<noteq> [] \<Longrightarrow> s \<noteq> [] \<and> hd s = hd p"
  by (cases p; cases s) (auto simp: startswith_def)

lemma startswith_append: "startswith (p @ s) p"
  by (simp add: startswith_def)

lemma hd_headers: "hd COMPLETED_HEADER = 9989" "hd INCOMPLETE_HEADER = 10060"
  by (simp_all add: COMPLETED_HEADER_def INCOMPLETE_HEADER_def)

subsection \<open>Header and bullet lines as the parser sees them\<close>

lemma strip_header_line:
  assumes "h \<noteq> []" "\<not> is_space (hd h)" "\<not> is_space (last h)"
  shows "startswith (strip (h @ s @ [10])) h"
proof -
  from assms have "lstrip (h @ s @ [10]) = h @ s @ [10]" by (simp add: lstrip_id)
  moreover from rstrip_keeps [OF assms(1,3)] obtain y where "rstrip (h @ s @ [10]) = h @ y"
    by blast
  ultimately show ?thesis by (simp add: strip_def startswith_def)
qed

lemma parse_line_completed_header:
  "startswith line COMPLETED_HEADER \<Longrightarrow> parse_line (sec, c, i) line = (Some SecCompleted, c, i)"
  by (simp add: parse_line_def)

lemma parse_line_incomplete_header:
  assumes "startswith line INCOMPLETE_HEADER"
  shows "parse_line (sec, c, i) line = (Some SecIncomplete, c, i)"
proof -
  from assms have "hd line = 10060" using startswith_hd headers_not_space(6) hd_headers(2) by metis
  then have "\<not> startswith line COMPLETED_HEADER"
    using startswith_hd [of line COMPLETED_HEADER] headers_not_space(5) hd_headers(1) by auto
  with assms show ?thesis by (simp add: parse_line_def)
qed

lemma bullet_not_header: "\<not> is_header (ascii ''- '' @ t)"
  by (simp add: is_header_def startswith_def COMPLETED_HEADER_def INCOMPLETE_HEADER_def ascii_def)

lemma parse_line_bullet:
  assumes "strip t = t"
  shows "parse_line (sec, c, i) (ascii ''- '' @ t) =
           (case sec of Some SecCompleted \<Rightarrow> (sec, c @ [t], i)
                      | Some SecIncomplete \<Rightarrow> (sec, c, i @ [t])
                      | None \<Rightarrow> (sec, c, i))"
proof -
  have "\<not> startswith (ascii ''- '' @ t) COMPLETED_HEADER" "\<not> startswith (ascii ''- '' @ t) INCOMPLETE_HEADER"
    using bullet_not_header [of t] by (simp_all add: is_header_def)
  moreover have "startswith (ascii ''- '' @ t) (ascii ''- '')" by (rule startswith_append)
  moreover have "drop 2 (ascii ''- '' @ t) = t" by (simp add: ascii_def)
  ultimately show ?thesis using assms by (simp add: parse_line_def Let_def)
qed

lemma strip_bullet_line:
  assumes "valid_task t"
  shows "strip (ascii ''- '' @ t @ [10]) = ascii ''- '' @ t"
proof -
  from assms have t: "t \<noteq> []" "\<not> is_space (last t)"
    using strip_fixed_ends [of t] by (simp_all add: valid_task_def)
  have "strip ((ascii ''- '' @ t) @ [10]) = ascii ''- '' @ t"
  proof (rule strip_line)
    show "ascii ''- '' @ t \<noteq> []" by (simp add: ascii_def)
    show "\<not> is_space (hd (ascii ''- '' @ t))" by (simp add: ascii_def is_space_def)
    show "\<not> is_space (last (ascii ''- '' @ t))" using t by simp
  qed
  then show ?thesis by simp
qed

lemma bullet_no_newline:
  "valid_task t \<Longrightarrow> 10 \<notin> set (ascii ''- '' @ t) \<and> 13 \<notin> set (ascii ''- '' @ t)"
  by (simp add: valid_task_def ascii_def)

lemma lines_bullets:
  assumes "\<forall>t \<in> set ts. valid_task t"
  shows "map strip (readlines (bullets ts @ rest)) = map (\<lambda>t. ascii ''- '' @ t) ts @ map strip (readlines rest)"
  using assms
proof (induction ts)
  case Nil
  then show ?case by (simp add: bullets_def)
next
  case (Cons t ts)
  then have v: "valid_task t" and IH: "map strip (readlines (bullets ts @ rest)) = map (\<lambda>t. ascii ''- '' @ t) ts @ map strip (readlines rest)"
    by simp_all
  have "bullets (t # ts) @ rest = (ascii ''- '' @ t) @ 10 # (bullets ts @ rest)"
    by (simp add: bullets_def)
  moreover have "readlines ((ascii ''- '' @ t) @ 10 # (bullets ts @ rest))
                   = ((ascii ''- '' @ t) @ [10]) # readlines (bullets ts @ rest)"
    using bullet_no_newline [OF v] by (intro readlines_line) simp_all
  ultimately have "readlines (bullets (t # ts) @ rest) = ((ascii ''- '' @ t) @ [10]) # readlines (bullets ts @ rest)"
    by (simp only:)
  then show ?case using IH strip_bullet_line [OF v] by simp
qed

lemma parse_bullets:
  assumes "\<forall>t \<in> set ts. valid_task t"
  shows "parse_lines (Some SecCompleted, c, i) (map (\<lambda>t. ascii ''- '' @ t) ts @ rest)
           = parse_lines (Some SecCompleted, c @ ts, i) rest"
    and "parse_lines (Some SecIncomplete, c, i) (map (\<lambda>t. ascii ''- '' @ t) ts @ rest)
           = parse_lines (Some SecIncomplete, c, i @ ts) rest"
  using assms
proof (induction ts arbitrary: c i)
  case Nil
  { case 1 show ?case by simp }
  { case 2 show ?case by simp }
next
  case (Cons t ts)
  { case 1
    then have "strip t = t" and "\<forall>t \<in> set ts. valid_task t" by (simp_all add: valid_task_def)
    then show ?case using Cons.IH(1) [of "c @ [t]" i] by (simp add: parse_line_bullet) }
  { case 2
    then have "strip t = t" and "\<forall>t \<in> set ts. valid_task t" by (simp_all add: valid_task_def)
    then show ?case using Cons.IH(2) [of c "i @ [t]"] by (simp add: parse_line_bullet) }
qed

lemma parse_line_None: "parse_line st (ascii ''None'') = st"
  by (cases st) (simp add: parse_line_def startswith_def COMPLETED_HEADER_def INCOMPLETE_HEADER_def ascii_def)

lemma strip_None_line: "strip (ascii ''None'' @ [10]) = ascii ''None''"
  by (simp add: strip_def lstrip_def rstrip_def ascii_def is_space_def)

lemma lines_body:
  assumes "\<forall>t \<in> set ts. valid_task t"
  shows "map strip (readlines ((if ts \<noteq> [] then bullets ts else ascii ''None'' @ [10]) @ rest))
         = (if ts \<noteq> [] then map (\<lambda>t. ascii ''- '' @ t) ts else [ascii ''None'']) @ map strip (readlines rest)"
proof (cases "ts = []")
  case True
  have "readlines (ascii ''None'' @ 10 # rest) = (ascii ''None'' @ [10]) # readlines rest"
    by (intro readlines_line) (simp_all add: ascii_def)
  then have "map strip (readlines ((ascii ''None'' @ [10]) @ rest)) = [ascii ''None''] @ map strip (readlines rest)"
    by (simp add: strip_None_line)
  with True show ?thesis by (simp only: if_False simp_thms)
next
  case False
  with lines_bullets [OF assms, of rest] show ?thesis by (simp only: if_True simp_thms)
qed

lemma parse_body:
  assumes "\<forall>t \<in> set ts. valid_task t"
  shows "parse_lines (Some SecCompleted, c, i)
           ((if ts \<noteq> [] then map (\<lambda>t. ascii ''- '' @ t) ts else [ascii ''None'']) @ rest)
         = parse_lines (Some SecCompleted, c @ ts, i) rest"
    and "parse_lines (Some SecIncomplete, c, i)
           ((if ts \<noteq> [] then map (\<lambda>t. ascii ''- '' @ t) ts else [ascii ''None'']) @ rest)
         = parse_lines (Some SecIncomplete, c, i @ ts) rest"
proof -
  show "parse_lines (Some SecCompleted, c, i)
           ((if ts \<noteq> [] then map (\<lambda>t. ascii ''- '' @ t) ts else [ascii ''None'']) @ rest)
         = parse_lines (Some SecCompleted, c @ ts, i) rest"
  proof (cases "ts = []")
    case True
    then show ?thesis by (simp add: parse_line_None)
  next
    case False
    with parse_bullets(1) [OF assms, of c i rest] show ?thesis by (simp only: if_True simp_thms)
  qed
  show "parse_lines (Some SecIncomplete, c, i)
           ((if ts \<noteq> [] then map (\<lambda>t. ascii ''- '' @ t) ts else [ascii ''None'']) @ rest)
         = parse_lines (Some SecIncomplete, c, i @ ts) rest"
  proof (cases "ts = []")
    case True
    then show ?thesis by (simp add: parse_line_None)
  next
    case False
    with parse_bullets(2) [OF assms, of c i rest] show ?thesis by (simp only: if_True simp_thms)
  qed
qed

lemma lines_header:
  assumes "h \<noteq> []" "\<not> is_space (hd h)" "\<not> is_space (last h)" "10 \<notin> set h" "13 \<notin> set h"
    and "10 \<notin> set s" "13 \<notin> set s"
  shows "\<exists>line. startswith line h \<and> map strip (readlines (h @ s @ [10] @ rest)) = line # map strip (readlines rest)"
proof -
  have a: "10 \<notin> set (h @ s)" and b: "13 \<notin> set (h @ s)"
    using assms(4-7) by simp_all
  have "readlines ((h @ s) @ 10 # rest) = ((h @ s) @ [10]) # readlines rest"
    using a b by (rule readlines_line)
  then have "map strip (readlines (h @ s @ [10] @ rest)) = strip (h @ s @ [10]) # map strip (readlines rest)"
    by simp
  moreover have "startswith (strip (h @ s @ [10])) h"
    using assms(1-3) by (rule strip_header_line)
  ultimately show ?thesis by (intro exI [of _ "strip (h @ s @ [10])"] conjI)
qed

lemma parse_sections:
  assumes cs: "\<forall>t \<in> set cs. valid_task t" and "is": "\<forall>t \<in> set is. valid_task t"
    and s1: "10 \<notin> set s1" "13 \<notin> set s1" and s2: "10 \<notin> set s2" "13 \<notin> set s2"
  shows "parse_lines (sec, c, i)
           (map strip (readlines
              (COMPLETED_HEADER @ s1 @ [10]
               @ (if cs \<noteq> [] then bullets cs else ascii ''None'' @ [10])
               @ INCOMPLETE_HEADER @ s2 @ [10]
               @ (if is \<noteq> [] then bullets is else ascii ''None'' @ [10]))))
         = (Some SecIncomplete, c @ cs, i @ is)"
proof -
  let ?body2 = "(if is \<noteq> [] then bullets is else ascii ''None'' @ [10])"
  let ?rest2 = "INCOMPLETE_HEADER @ s2 @ [10] @ ?body2 @ []"
  let ?body1 = "(if cs \<noteq> [] then bullets cs else ascii ''None'' @ [10])"
  from lines_header [OF headers_not_space(5,1,2) headers_no_newline(1,2) s1, of "?body1 @ ?rest2"]
  obtain l1 where l1: "startswith l1 COMPLETED_HEADER \<and>
    map strip (readlines (COMPLETED_HEADER @ s1 @ [10] @ ?body1 @ ?rest2)) = l1 # map strip (readlines (?body1 @ ?rest2))" ..
  from lines_header [OF headers_not_space(6,3,4) headers_no_newline(3,4) s2, of "?body2 @ []"]
  obtain l2 where l2: "startswith l2 INCOMPLETE_HEADER \<and>
    map strip (readlines ?rest2) = l2 # map strip (readlines (?body2 @ []))" ..
  have "parse_lines (sec, c, i) (l1 # map strip (readlines (?body1 @ ?rest2)))
        = parse_lines (Some SecCompleted, c, i) (map strip (readlines (?body1 @ ?rest2)))"
    using l1 by (simp only: parse_lines.simps parse_line_completed_header)
  also have "\<dots> = parse_lines (Some SecCompleted, c @ cs, i) (map strip (readlines ?rest2))"
    by (simp only: lines_body [OF cs] parse_body(1) [OF cs])
  also have "\<dots> = parse_lines (Some SecCompleted, c @ cs, i) (l2 # map strip (readlines (?body2 @ [])))"
    using l2 by (simp only:)
  also have "\<dots> = parse_lines (Some SecIncomplete, c @ cs, i) (map strip (readlines (?body2 @ [])))"
    using l2 by (simp only: parse_lines.simps parse_line_incomplete_header)
  also have "\<dots> = parse_lines (Some SecIncomplete, c @ cs, i @ is) (map strip (readlines []))"
    by (simp only: lines_body [OF "is"] parse_body(2) [OF "is"])
  also have "\<dots> = (Some SecIncomplete, c @ cs, i @ is)"
    by (simp only: readlines_Nil list.map parse_lines.simps)
  finally have "parse_lines (sec, c, i) (l1 # map strip (readlines (?body1 @ ?rest2))) = (Some SecIncomplete, c @ cs, i @ is)" .
  with l1 have "parse_lines (sec, c, i) (map strip (readlines (COMPLETED_HEADER @ s1 @ [10] @ ?body1 @ ?rest2)))
                = (Some SecIncomplete, c @ cs, i @ is)"
    by (simp only:)
  then show ?thesis by (simp only: append_Nil2)
qed

subsection \<open>Writing and reading back\<close>

lemma decimal_digits: "c \<in> set (decimal n) \<Longrightarrow> 48 \<le> c"
proof (induction n rule: decimal.induct)
  case (1 n)
  show ?case
  proof (cases "n < 10")
    case True
    with "1.prems" show ?thesis by (simp add: decimal.simps [of n] digit_def)
  next
    case False
    with "1.prems" have "c \<in> set (decimal (n div 10)) \<or> c = digit n"
      by (auto simp: decimal.simps [of n])
    with False "1.IH" show ?thesis by (auto simp: digit_def)
  qed
qed

lemma date_str_no_newline: "10 \<notin> set (date_str d)" "13 \<notin> set (date_str d)"
proof -
  have "45 \<le> c" if "c \<in> set (date_str d)" for c
    using that decimal_digits [of c "year d"]
    by (auto simp: date_str_def zpad2_def digit_def ascii_def)
  then show "10 \<notin> set (date_str d)" "13 \<notin> set (date_str d)" by fastforce+
qed

lemma map_of_write_file: "map_of (write_file path content fs) path = Some (Utf8 content)"
  by (simp add: write_file_def update_conv')

lemma parse_txt_day_missing: "map_of fs path = None \<Longrightarrow> parse_txt_day fs path = Inr ([], [])"
  by (simp add: parse_txt_day_def)

lemma parse_txt_day_not_utf8:
  "map_of fs path = Some NotUtf8 \<Longrightarrow> parse_txt_day fs path = Inl UnicodeDecodeError"
  by (simp add: parse_txt_day_def read_text_def)

lemma parse_txt_day_text:
  "map_of fs path = Some (Utf8 content) \<Longrightarrow>
   parse_lines (None, [], []) (map strip (readlines content)) = (sec, c, i) \<Longrightarrow>
   parse_txt_day fs path = Inr (c, i)"
  by (simp add: parse_txt_day_def read_text_def)

lemma parse_line_ignored:
  "\<not> is_header line \<Longrightarrow> \<not> is_bullet line \<Longrightarrow> parse_line st line = st"
  by (cases st) (simp add: parse_line_def is_header_def is_bullet_def)

lemma title_line:
  "map strip (readlines (ascii ''===== '' @ date_str d @ ascii '' ====='' @ [10] @ rest))
   = (ascii ''===== '' @ date_str d @ ascii '' ====='') # map strip (readlines rest)"
proof -
  let ?t = "ascii ''===== '' @ date_str d @ ascii '' =====''"
  have nl: "10 \<notin> set ?t" "13 \<notin> set ?t"
    using date_str_no_newline [of d] by (simp_all add: ascii_def)
  have "readlines (?t @ 10 # rest) = (?t @ [10]) # readlines rest"
    using nl by (rule readlines_line)
  moreover have "strip (?t @ [10]) = ?t"
    by (rule strip_line) (simp_all add: ascii_def is_space_def)
  ultimately show ?thesis by simp
qed

lemma title_ignored:
  "parse_line st (ascii ''===== '' @ date_str d @ ascii '' ====='') = st"
  by (rule parse_line_ignored)
     (simp_all add: is_header_def is_bullet_def startswith_def COMPLETED_HEADER_def INCOMPLETE_HEADER_def ascii_def)

lemma colon_no_newline: "10 \<notin> set (ascii '':'')" "13 \<notin> set (ascii '':'')"
  by (simp_all add: ascii_def)

text \<open>
  Claim C2. Writing the record of a day whose task names are all valid (non-empty,
  trimmed, without a line break) and parsing the written file succeeds and gives back the
  same two lists, in the same order, whatever the day and whatever else the directory
  holds.
\<close>

theorem write_then_parse_roundtrip:
  assumes "\<forall>t \<in> set completed_ts \<union> set incomplete_ts. valid_task t"
  shows "parse_txt_day (write_daily_file d completed_ts incomplete_ts fs) (daily_file_path d)
         = Inr (completed_ts, incomplete_ts)"
proof -
  from assms have cs: "\<forall>t \<in> set completed_ts. valid_task t" and "is": "\<forall>t \<in> set incomplete_ts. valid_task t"
    by simp_all
  let ?rest = "COMPLETED_HEADER @ ascii '':'' @ [10]
        @ (if completed_ts \<noteq> [] then bullets completed_ts else ascii ''None'' @ [10])
        @ INCOMPLETE_HEADER @ ascii '':'' @ [10]
        @ (if incomplete_ts \<noteq> [] then bullets incomplete_ts else ascii ''None'' @ [10])"
  let ?content = "ascii ''===== '' @ date_str d @ ascii '' ====='' @ [10] @ ?rest"
  have written: "map_of (write_daily_file d completed_ts incomplete_ts fs) (daily_file_path d)
                 = Some (Utf8 ?content)"
    unfolding write_daily_file_def by (rule map_of_write_file)
  have "parse_lines (None, [], []) (map strip (readlines ?content))
        = parse_lines (None, [], []) (map strip (readlines ?rest))"
    by (simp only: title_line parse_lines.simps title_ignored)
  also have "\<dots> = (Some SecIncomplete, [] @ completed_ts, [] @ incomplete_ts)"
    using cs "is" colon_no_newline colon_no_newline by (rule parse_sections)
  finally have "parse_lines (None, [], []) (map strip (readlines ?content))
                = (Some SecIncomplete, completed_ts, incomplete_ts)"
    by simp
  with written show ?thesis by (rule parse_txt_day_text)
qed

theorem write_then_parse_roundtrip_witness:
  "valid_task (ascii ''A'') \<and> valid_task (ascii ''B'') \<and> valid_task (ascii ''C'')
   \<and> parse_txt_day (write_daily_file \<lparr>year = 2024, month = 1, day = 1\<rparr> [ascii ''A'', ascii ''B''] [ascii ''C''] [])
        (daily_file_path \<lparr>year = 2024, month = 1, day = 1\<rparr>)
      = Inr ([ascii ''A'', ascii ''B''], [ascii ''C''])"
proof -
  have v: "valid_task (ascii ''A'')" "valid_task (ascii ''B'')" "valid_task (ascii ''C'')"
    by (simp_all add: ascii_def valid_task_def strip_def lstrip_def rstrip_def is_space_def)
  then have h: "\<forall>t \<in> set [ascii ''A'', ascii ''B''] \<union> set [ascii ''C'']. valid_task t"
    by simp
  from v write_then_parse_roundtrip [OF h, of "\<lparr>year = 2024, month = 1, day = 1\<rparr>" "[]"]
  show ?thesis by (intro conjI)
qed

subsection \<open>What the parser keeps and what it drops\<close>

lemma parse_lines_filter:
  "parse_lines st (filter (\<lambda>line. is_header line \<or> is_bullet line) lns) = parse_lines st lns"
  by (induction lns arbitrary: st) (simp_all add: parse_line_ignored)

lemma parse_line_no_section:
  "\<not> is_header line \<Longrightarrow> parse_line (None, c, i) line = (None, c, i)"
  by (simp add: parse_line_def is_header_def Let_def)


lemma parse_lines_no_header:
  "\<forall>line \<in> set lns. \<not> is_header line \<Longrightarrow> parse_lines (None, c, i) lns = (None, c, i)"
  by (induction lns) (simp_all add: parse_line_no_section)







lemma parse_txt_day_text_ex:
  assumes "map_of fs path = Some (Utf8 content)"
  shows "\<exists>sec r. parse_txt_day fs path = Inr r
           \<and> parse_lines (None, [], []) (map strip (readlines content)) = (sec, r)"
proof -
  obtain sec c i where p: "parse_lines (None, [], []) (map strip (readlines content)) = (sec, c, i)"
    by (cases "parse_lines (None, [], []) (map strip (readlines content))") blast
  from assms p have "parse_txt_day fs path = Inr (c, i)" by (rule parse_txt_day_text)
  with p show ?thesis by (intro exI [of _ sec] exI [of _ "(c, i)"] conjI)
qed

lemmas parse_eval =
  parse_txt_day_def read_text_def readlines_def parse_line_def strip_def lstrip_def rstrip_def
  is_space_def startswith_def COMPLETED_HEADER_def INCOMPLETE_HEADER_def ascii_def is_header_def
  is_bullet_def

text \<open>
  Claim C7, as stated, fails for an existing file whose bytes are not valid UTF-8: the
  file is opened with strict decoding and nothing catches the error, so \<open>parse_txt_day\<close>
  raises instead of ignoring what it cannot read.
\<close>

theorem not_utf8_file_counterexample:
  "map_of [(ascii ''tasks_data/2024-01-01.txt'', NotUtf8)] (ascii ''tasks_data/2024-01-01.txt'')
     = Some NotUtf8
   \<and> parse_txt_day [(ascii ''tasks_data/2024-01-01.txt'', NotUtf8)] (ascii ''tasks_data/2024-01-01.txt'')
     = Inl UnicodeDecodeError"
  by (simp add: parse_txt_day_def read_text_def)

text \<open>
  Claim C7, amended. A path that does not exist parses to two empty lists, without error.
  In an existing file that is valid UTF-8, a stripped line that neither starts with one of
  the two headers nor with the bullet marker leaves the state of the parser as it is, so
  parsing succeeds and the result is the one obtained from the recognised lines alone. An
  existing file that is not valid UTF-8 makes \<open>parse_txt_day\<close> raise
  \<open>UnicodeDecodeError\<close>.
\<close>

theorem parse_txt_day_ignores_other_lines:
  "(map_of fs path = None \<longrightarrow> parse_txt_day fs path = Inr ([], []))
   \<and> (\<not> is_header line \<and> \<not> is_bullet line \<longrightarrow> parse_line st line = st)
   \<and> (map_of fs path = Some (Utf8 content) \<longrightarrow>
        (\<exists>sec r. parse_txt_day fs path = Inr r
           \<and> parse_lines (None, [], [])
                 (filter (\<lambda>line. is_header line \<or> is_bullet line) (map strip (readlines content)))
               = (sec, r)))
   \<and> (map_of fs path = Some NotUtf8 \<longrightarrow> parse_txt_day fs path = Inl UnicodeDecodeError)"
proof (intro conjI impI)
  assume "map_of fs path = None"
  then show "parse_txt_day fs path = Inr ([], [])" by (rule parse_txt_day_missing)
next
  assume "\<not> is_header line \<and> \<not> is_bullet line"
  then show "parse_line st line = st" by (simp add: parse_line_ignored)
next
  assume "map_of fs path = Some (Utf8 content)"
  from parse_txt_day_text_ex [OF this]
  show "\<exists>sec r. parse_txt_day fs path = Inr r
           \<and> parse_lines (None, [], [])
                 (filter (\<lambda>line. is_header line \<or> is_bullet line) (map strip (readlines content)))
               = (sec, r)"
    by (simp only: parse_lines_filter)
next
  assume "map_of fs path = Some NotUtf8"
  then show "parse_txt_day fs path = Inl UnicodeDecodeError" by (rule parse_txt_day_not_utf8)
qed

theorem parse_txt_day_ignores_other_lines_witness:
  "map_of ([]::files) (ascii ''tasks_data/2024-01-01.txt'') = None
   \<and> parse_txt_day [] (ascii ''tasks_data/2024-01-01.txt'') = Inr ([], [])
   \<and> \<not> is_header (ascii ''Notes: tidy up'') \<and> \<not> is_bullet (ascii ''Notes: tidy up'')
   \<and> parse_line (Some SecCompleted, [ascii ''A''], []) (ascii ''Notes: tidy up'') = (Some SecCompleted, [ascii ''A''], [])
   \<and> map_of [(ascii ''f.txt'', Utf8 (COMPLETED_HEADER @ [10] @ ascii ''Notes: tidy up'' @ [10] @ ascii ''- A'' @ [10]))]
        (ascii ''f.txt'')
      = Some (Utf8 (COMPLETED_HEADER @ [10] @ ascii ''Notes: tidy up'' @ [10] @ ascii ''- A'' @ [10]))
   \<and> parse_txt_day [(ascii ''f.txt'', Utf8 (COMPLETED_HEADER @ [10] @ ascii ''Notes: tidy up'' @ [10] @ ascii ''- A'' @ [10]))]
        (ascii ''f.txt'') = Inr ([ascii ''A''], [])
   \<and> (\<exists>sec. parse_lines (None, [], [])
             (filter (\<lambda>line. is_header line \<or> is_bullet line)
                (map strip (readlines (COMPLETED_HEADER @ [10] @ ascii ''Notes: tidy up'' @ [10] @ ascii ''- A'' @ [10]))))
           = (sec, [ascii ''A''], []))
   \<and> map_of [(ascii ''g.txt'', NotUtf8)] (ascii ''g.txt'') = Some NotUtf8
   \<and> parse_txt_day [(ascii ''g.txt'', NotUtf8)] (ascii ''g.txt'') = Inl UnicodeDecodeError"
proof -
  let ?p = "ascii ''f.txt''"
  let ?g = "ascii ''g.txt''"
  let ?c = "COMPLETED_HEADER @ [10] @ ascii ''Notes: tidy up'' @ [10] @ ascii ''- A'' @ [10]"
  let ?j = "ascii ''Notes: tidy up''"
  have a: "map_of ([]::files) (ascii ''tasks_data/2024-01-01.txt'') = None" by simp
  have b: "\<not> is_header ?j \<and> \<not> is_bullet ?j" by (simp add: parse_eval)
  have c: "map_of [(?p, Utf8 ?c)] ?p = Some (Utf8 ?c)" by simp
  have d: "parse_txt_day [(?p, Utf8 ?c)] ?p = Inr ([ascii ''A''], [])" by (simp add: parse_eval)
  have n: "map_of [(?g, NotUtf8)] ?g = Some NotUtf8" by simp
  note t1 = parse_txt_day_ignores_other_lines [of "[]" "ascii ''tasks_data/2024-01-01.txt''" ?j "(Some SecCompleted, [ascii ''A''], [])" ?c]
  note t2 = parse_txt_day_ignores_other_lines [of "[(?p, Utf8 ?c)]" ?p ?j "(Some SecCompleted, [ascii ''A''], [])" ?c]
  note t3 = parse_txt_day_ignores_other_lines [of "[(?g, NotUtf8)]" ?g ?j "(Some SecCompleted, [ascii ''A''], [])" ?c]
  note e = t1 [THEN conjunct1, THEN mp, OF a]
  note f = t1 [THEN conjunct2, THEN conjunct1, THEN mp, OF b]
  note u = t3 [THEN conjunct2, THEN conjunct2, THEN conjunct2, THEN mp, OF n]
  from t2 [THEN conjunct2, THEN conjunct2, THEN conjunct1, THEN mp, OF c]
  obtain sec r where r: "parse_txt_day [(?p, Utf8 ?c)] ?p = Inr r"
    "parse_lines (None, [], [])
             (filter (\<lambda>line. is_header line \<or> is_bullet line) (map strip (readlines ?c))) = (sec, r)"
    by (elim exE conjE)
  from r(1) d have "r = ([ascii ''A''], [])" by simp
  with r(2) have g: "\<exists>sec. parse_lines (None, [], [])
             (filter (\<lambda>line. is_header line \<or> is_bullet line) (map strip (readlines ?c)))
           = (sec, [ascii ''A''], [])" by (intro exI [of _ sec]) (simp only:)
  from b have b1: "\<not> is_header ?j" and b2: "\<not> is_bullet ?j" by (rule conjunct1, rule conjunct2)
  from a e b1 b2 f c d g n u show ?thesis by (intro conjI)
qed



text \<open>
  Claim C8, as stated, fails: a record whose section headers are the plain words, without
  the leading symbols, has no line that the parser takes for a header, so its bullets are
  dropped and both lists come back empty.
\<close>

theorem legacy_plain_headers_counterexample:
  "parse_txt_day
     [(ascii ''tasks_data/2023-05-01.txt'',
       Utf8 (ascii ''Completed Tasks:'' @ [10] @ ascii ''- A'' @ [10]
             @ ascii ''Incomplete Tasks:'' @ [10] @ ascii ''- B'' @ [10]))]
     (ascii ''tasks_data/2023-05-01.txt'') = Inr ([], [])
   \<and> parse_txt_day
     [(ascii ''tasks_data/2023-05-01.txt'',
       Utf8 (ascii ''Completed Tasks:'' @ [10] @ ascii ''- A'' @ [10]
             @ ascii ''Incomplete Tasks:'' @ [10] @ ascii ''- B'' @ [10]))]
     (ascii ''tasks_data/2023-05-01.txt'') \<noteq> Inr ([ascii ''A''], [ascii ''B''])"
  by (simp add: parse_eval)

text \<open>
  Claim C8, amended. A stripped line is a section header exactly when it starts with one
  of the two header texts, their leading symbol included; what follows the text on the
  line does not matter. A record that is valid UTF-8 and whose header lines carry any
  other suffix than the colon is therefore read back in full, and a file that is valid
  UTF-8 and has no such line (plain-text headers among them) gives two empty lists,
  without error. A file that is not valid UTF-8, legacy or not, makes \<open>parse_txt_day\<close>
  raise \<open>UnicodeDecodeError\<close>.
\<close>

theorem parse_txt_day_header_prefixes:
  "(startswith line COMPLETED_HEADER \<longrightarrow> parse_line (sec, c, i) line = (Some SecCompleted, c, i))
   \<and> (startswith line INCOMPLETE_HEADER \<longrightarrow> parse_line (sec, c, i) line = (Some SecIncomplete, c, i))
   \<and> ((\<forall>t \<in> set cs \<union> set is. valid_task t) \<and> 10 \<notin> set s1 \<and> 13 \<notin> set s1 \<and> 10 \<notin> set s2 \<and> 13 \<notin> set s2
        \<and> map_of fs path =
            Some (Utf8 (COMPLETED_HEADER @ s1 @ [10]
                  @ (if cs \<noteq> [] then bullets cs else ascii ''None'' @ [10])
                  @ INCOMPLETE_HEADER @ s2 @ [10]
                  @ (if is \<noteq> [] then bullets is else ascii ''None'' @ [10])))
        \<longrightarrow> parse_txt_day fs path = Inr (cs, is))
   \<and> (map_of fs path = Some (Utf8 content) \<and> (\<forall>l \<in> set (map strip (readlines content)). \<not> is_header l)
        \<longrightarrow> parse_txt_day fs path = Inr ([], []))
   \<and> (map_of fs path = Some NotUtf8 \<longrightarrow> parse_txt_day fs path = Inl UnicodeDecodeError)"
proof (intro conjI impI)
  assume "startswith line COMPLETED_HEADER"
  then show "parse_line (sec, c, i) line = (Some SecCompleted, c, i)"
    by (rule parse_line_completed_header)
next
  assume "startswith line INCOMPLETE_HEADER"
  then show "parse_line (sec, c, i) line = (Some SecIncomplete, c, i)"
    by (rule parse_line_incomplete_header)
next
  let ?content = "COMPLETED_HEADER @ s1 @ [10]
                  @ (if cs \<noteq> [] then bullets cs else ascii ''None'' @ [10])
                  @ INCOMPLETE_HEADER @ s2 @ [10]
                  @ (if is \<noteq> [] then bullets is else ascii ''None'' @ [10])"
  assume a: "(\<forall>t \<in> set cs \<union> set is. valid_task t) \<and> 10 \<notin> set s1 \<and> 13 \<notin> set s1 \<and> 10 \<notin> set s2 \<and> 13 \<notin> set s2
        \<and> map_of fs path = Some (Utf8 ?content)"
  then have v1: "\<forall>t \<in> set cs. valid_task t" and v2: "\<forall>t \<in> set is. valid_task t"
    and s1: "10 \<notin> set s1" "13 \<notin> set s1" and s2: "10 \<notin> set s2" "13 \<notin> set s2"
    and m: "map_of fs path = Some (Utf8 ?content)"
    by simp_all
  have "parse_lines (None, [], []) (map strip (readlines ?content))
        = (Some SecIncomplete, [] @ cs, [] @ is)"
    using v1 v2 s1 s2 by (rule parse_sections)
  then have "parse_lines (None, [], []) (map strip (readlines ?content)) = (Some SecIncomplete, cs, is)"
    by simp
  with m show "parse_txt_day fs path = Inr (cs, is)" by (rule parse_txt_day_text)
next
  assume a: "map_of fs path = Some (Utf8 content) \<and> (\<forall>l \<in> set (map strip (readlines content)). \<not> is_header l)"
  then have "parse_lines (None, [], []) (map strip (readlines content)) = (None, [], [])"
    by (intro parse_lines_no_header) simp
  moreover from a have "map_of fs path = Some (Utf8 content)" by simp
  ultimately show "parse_txt_day fs path = Inr ([], [])" by (intro parse_txt_day_text)
next
  assume "map_of fs path = Some NotUtf8"
  then show "parse_txt_day fs path = Inl UnicodeDecodeError" by (rule parse_txt_day_not_utf8)
qed

theorem parse_txt_day_header_prefixes_witness:
  "startswith (COMPLETED_HEADER @ ascii '' (done)'') COMPLETED_HEADER
   \<and> parse_line (None, [], []) (COMPLETED_HEADER @ ascii '' (done)'') = (Some SecCompleted, [], [])
   \<and> startswith (INCOMPLETE_HEADER @ ascii '' (left)'') INCOMPLETE_HEADER
   \<and> parse_line (None, [], []) (INCOMPLETE_HEADER @ ascii '' (left)'') = (Some SecIncomplete, [], [])
   \<and> valid_task (ascii ''A'') \<and> valid_task (ascii ''B'')
   \<and> 10 \<notin> set (ascii '' (done)'') \<and> 13 \<notin> set (ascii '' (done)'')
   \<and> 10 \<notin> set (ascii '' (left)'') \<and> 13 \<notin> set (ascii '' (left)'')
   \<and> parse_txt_day
        [(ascii ''old.txt'',
          Utf8 (COMPLETED_HEADER @ ascii '' (done)'' @ [10] @ ascii ''- A'' @ [10]
                @ INCOMPLETE_HEADER @ ascii '' (left)'' @ [10] @ ascii ''- B'' @ [10]))]
        (ascii ''old.txt'') = Inr ([ascii ''A''], [ascii ''B''])
   \<and> map strip (readlines (ascii ''Completed Tasks:'' @ [10] @ ascii ''- A'' @ [10]))
       = [ascii ''Completed Tasks:'', ascii ''- A'']
   \<and> \<not> is_header (ascii ''Completed Tasks:'') \<and> \<not> is_header (ascii ''- A'')
   \<and> parse_txt_day [(ascii ''plain.txt'', Utf8 (ascii ''Completed Tasks:'' @ [10] @ ascii ''- A'' @ [10]))]
        (ascii ''plain.txt'') = Inr ([], [])
   \<and> map_of [(ascii ''latin1.txt'', NotUtf8)] (ascii ''latin1.txt'') = Some NotUtf8
   \<and> parse_txt_day [(ascii ''latin1.txt'', NotUtf8)] (ascii ''latin1.txt'') = Inl UnicodeDecodeError"
proof -
  let ?l1 = "COMPLETED_HEADER @ ascii '' (done)''"
  let ?l2 = "INCOMPLETE_HEADER @ ascii '' (left)''"
  let ?p = "ascii ''old.txt''"
  let ?q = "ascii ''plain.txt''"
  let ?g = "ascii ''latin1.txt''"
  let ?plain = "ascii ''Completed Tasks:'' @ [10] @ ascii ''- A'' @ [10]"
  let ?fs = "[(?p, Utf8 (COMPLETED_HEADER @ ascii '' (done)'' @ [10] @ ascii ''- A'' @ [10]
          @ INCOMPLETE_HEADER @ ascii '' (left)'' @ [10] @ ascii ''- B'' @ [10]))]"
  have h1: "startswith ?l1 COMPLETED_HEADER" by (rule startswith_append)
  have h2: "startswith ?l2 INCOMPLETE_HEADER" by (rule startswith_append)
  have v: "valid_task (ascii ''A'')" "valid_task (ascii ''B'')"
    by (simp_all add: ascii_def valid_task_def strip_def lstrip_def rstrip_def is_space_def)
  have n: "10 \<notin> set (ascii '' (done)'')" "13 \<notin> set (ascii '' (done)'')"
    "10 \<notin> set (ascii '' (left)'')" "13 \<notin> set (ascii '' (left)'')"
    by (simp_all add: ascii_def)
  have m: "map_of ?fs ?p =
     Some (Utf8 (COMPLETED_HEADER @ ascii '' (done)'' @ [10]
           @ (if [ascii ''A''] \<noteq> [] then bullets [ascii ''A''] else ascii ''None'' @ [10])
           @ INCOMPLETE_HEADER @ ascii '' (left)'' @ [10]
           @ (if [ascii ''B''] \<noteq> [] then bullets [ascii ''B''] else ascii ''None'' @ [10])))"
    by (simp add: bullets_def ascii_def)
  have lns: "map strip (readlines ?plain) = [ascii ''Completed Tasks:'', ascii ''- A'']"
    by (simp add: parse_eval)
  have nh: "\<not> is_header (ascii ''Completed Tasks:'')" "\<not> is_header (ascii ''- A'')"
    by (simp_all add: parse_eval)
  have mq: "map_of [(?q, Utf8 ?plain)] ?q = Some (Utf8 ?plain)" by simp
  have mg: "map_of [(?g, NotUtf8)] ?g = Some NotUtf8" by simp
  note t1 = parse_txt_day_header_prefixes
    [of ?l1 None "[]" "[]" "[ascii ''A'']" "[ascii ''B'']" "ascii '' (done)''" "ascii '' (left)''" ?fs ?p ?plain]
  note t2 = parse_txt_day_header_prefixes
    [of ?l2 None "[]" "[]" "[]" "[]" "[]" "[]" "[(?q, Utf8 ?plain)]" ?q ?plain]
  note t3 = parse_txt_day_header_prefixes
    [of ?l2 None "[]" "[]" "[]" "[]" "[]" "[]" "[(?g, NotUtf8)]" ?g ?plain]
  note r1 = t1 [THEN conjunct1, THEN mp, OF h1]
  note r2 = t2 [THEN conjunct2, THEN conjunct1, THEN mp, OF h2]
  have "(\<forall>t \<in> set [ascii ''A''] \<union> set [ascii ''B'']. valid_task t)" using v by simp
  with n m have r3: "parse_txt_day ?fs ?p = Inr ([ascii ''A''], [ascii ''B''])"
    by (intro t1 [THEN conjunct2, THEN conjunct2, THEN conjunct1, THEN mp] conjI)
  have "\<forall>l \<in> set (map strip (readlines ?plain)). \<not> is_header l"
    using nh by (simp only: lns) simp
  with mq have r4: "parse_txt_day [(?q, Utf8 ?plain)] ?q = Inr ([], [])"
    by (intro t2 [THEN conjunct2, THEN conjunct2, THEN conjunct2, THEN conjunct1, THEN mp] conjI)
  note r5 = t3 [THEN conjunct2, THEN conjunct2, THEN conjunct2, THEN conjunct2, THEN mp, OF mg]
  from h1 r1 h2 r2 v n r3 lns nh r4 mg r5 show ?thesis by (intro conjI)
qed

section \<open>The latest record before a day\<close>











subsection \<open>The order of record names is the order of days\<close>
















section \<open>Appending to the ledger and loading it\<close>



lemma append_to_history_empty:
  "append_to_history read_csv to_csv d [] [] hist = Inr (ensure_history_csv to_csv hist)"
  by (simp add: append_to_history_def history_rows_def Let_def)





text \<open>
  Claim C9. With both task lists empty \<open>append_to_history\<close> writes no row: a ledger file
  that exists is left exactly as it is, an absent one is created with the header only, and
  in both cases \<open>load_history\<close> returns after the call what it would have returned before
  it. When pandas reads the header-only file as no rows, the stored rows are the same
  before and after as well.
\<close>

theorem append_to_history_empty_noop:
  "\<exists>hist'. append_to_history read_csv to_csv d [] [] hist = Inr hist'
      \<and> hist' = ensure_history_csv to_csv hist
      \<and> (hist \<noteq> None \<longrightarrow> hist' = hist)
      \<and> (hist = None \<longrightarrow> hist' = Some (to_csv []))
      \<and> load_history read_csv to_datetime to_csv hist' = load_history read_csv to_datetime to_csv hist
      \<and> (read_csv (to_csv []) = Inr [] \<longrightarrow> ledger_rows read_csv hist' = ledger_rows read_csv hist)"
proof -
  have "append_to_history read_csv to_csv d [] [] hist = Inr (ensure_history_csv to_csv hist)"
    by (rule append_to_history_empty)
  moreover have "hist \<noteq> None \<longrightarrow> ensure_history_csv to_csv hist = hist"
    by (cases hist) (simp_all add: ensure_history_csv_def)
  moreover have "hist = None \<longrightarrow> ensure_history_csv to_csv hist = Some (to_csv [])"
    by (simp add: ensure_history_csv_def)
  moreover have "load_history read_csv to_datetime to_csv (ensure_history_csv to_csv hist)
                 = load_history read_csv to_datetime to_csv hist"
    by (cases hist) (simp_all add: load_history_def ensure_history_csv_def)
  moreover have "read_csv (to_csv []) = Inr [] \<longrightarrow>
                 ledger_rows read_csv (ensure_history_csv to_csv hist) = ledger_rows read_csv hist"
    by (cases hist) (simp_all add: ledger_rows_def ensure_history_csv_def)
  ultimately show ?thesis by (intro exI [of _ "ensure_history_csv to_csv hist"] conjI refl)
qed

theorem append_to_history_empty_noop_witness:
  "append_to_history (Inr :: ustring row list \<Rightarrow> unit + ustring row list) (\<lambda>rows. rows)
       \<lparr>year = 2024, month = 1, day = 2\<rparr> [] []
       (Some [\<lparr>date = ascii ''2024-01-01'', task = ascii ''Z'', status = ascii ''incomplete''\<rparr>])
     = Inr (Some [\<lparr>date = ascii ''2024-01-01'', task = ascii ''Z'', status = ascii ''incomplete''\<rparr>])
   \<and> append_to_history (Inr :: ustring row list \<Rightarrow> unit + ustring row list) (\<lambda>rows. rows)
       \<lparr>year = 2024, month = 1, day = 2\<rparr> [] [] None
     = Inr (Some [])
   \<and> ledger_rows (Inr :: ustring row list \<Rightarrow> unit + ustring row list) (Some [])
     = ledger_rows (Inr :: ustring row list \<Rightarrow> unit + ustring row list) None"
proof -
  let ?rd = "Inr :: ustring row list \<Rightarrow> unit + ustring row list"
  let ?wr = "\<lambda>rows :: ustring row list. rows"
  let ?td = "\<lambda>col :: ustring list. (Inr (map (\<lambda>_. \<lparr>year = 2024, month = 1, day = 1\<rparr>) col) :: unit + date list)"
  let ?d = "\<lparr>year = 2024, month = 1, day = 2\<rparr>"
  let ?z = "\<lparr>date = ascii ''2024-01-01'', task = ascii ''Z'', status = ascii ''incomplete''\<rparr>"
  from append_to_history_empty_noop [where read_csv = ?rd and to_csv = ?wr and to_datetime = ?td
      and d = ?d and hist = "Some [?z]"]
  obtain h where h: "append_to_history ?rd ?wr ?d [] [] (Some [?z]) = Inr h"
    "Some [?z] \<noteq> None \<longrightarrow> h = Some [?z]"
    by (elim exE conjE)
  from h(2) have "h = Some [?z]" by simp
  with h(1) have a: "append_to_history ?rd ?wr ?d [] [] (Some [?z]) = Inr (Some [?z])" by (simp only:)
  from append_to_history_empty_noop [where read_csv = ?rd and to_csv = ?wr and to_datetime = ?td
      and d = ?d and hist = None]
  obtain h' where h': "append_to_history ?rd ?wr ?d [] [] None = Inr h'"
    "None = (None :: ustring row list option) \<longrightarrow> h' = Some []"
    "?rd [] = Inr [] \<longrightarrow> ledger_rows ?rd h' = ledger_rows ?rd None"
    by (elim exE conjE)
  from h'(2) have e: "h' = Some []" by simp
  from h'(3) have "ledger_rows ?rd h' = ledger_rows ?rd None" by simp
  with e have c: "ledger_rows ?rd (Some []) = ledger_rows ?rd None" by (simp only:)
  from h'(1) e have b: "append_to_history ?rd ?wr ?d [] [] None = Inr (Some [])" by (simp only:)
  from a b c show ?thesis by (intro conjI)
qed

text \<open>
  Claim C6. \<open>load_history\<close> returns a frame for every ledger file, whatever \<open>read_csv\<close>
  and \<open>to_datetime\<close> do. When reading the file raises, or converting the date column
  raises, the result is the empty frame, which is also the result for a ledger without
  rows. When both succeed, the result is the rows of the file with the converted dates in
  place of the date strings.
\<close>

theorem load_history_never_raises:
  "(\<exists>h rows. load_history read_csv to_datetime to_csv hist = Inr (h, rows))
   \<and> (read_csv c = Inl e \<longrightarrow> load_history read_csv to_datetime to_csv (Some c) = Inr (Some c, []))
   \<and> (read_csv c = Inr df \<and> to_datetime (map date df) = Inl e \<longrightarrow>
        load_history read_csv to_datetime to_csv (Some c) = Inr (Some c, []))
   \<and> (read_csv c = Inr [] \<longrightarrow> load_history read_csv to_datetime to_csv (Some c) = Inr (Some c, []))
   \<and> (read_csv c = Inr df \<and> to_datetime (map date df) = Inr ds \<longrightarrow>
        load_history read_csv to_datetime to_csv (Some c)
        = Inr (Some c, map (\<lambda>(d, r). \<lparr>date = d, task = task r, status = status r\<rparr>) (zip ds df)))"
proof (intro conjI impI)
  show "\<exists>h rows. load_history read_csv to_datetime to_csv hist = Inr (h, rows)"
    by (simp add: load_history_def Let_def split: option.split sum.split)
next
  assume "read_csv c = Inl e"
  then show "load_history read_csv to_datetime to_csv (Some c) = Inr (Some c, [])"
    by (simp add: load_history_def load_history_try_def ensure_history_csv_def)
next
  assume "read_csv c = Inr df \<and> to_datetime (map date df) = Inl e"
  then show "load_history read_csv to_datetime to_csv (Some c) = Inr (Some c, [])"
    by (simp add: load_history_def load_history_try_def ensure_history_csv_def)
next
  assume "read_csv c = Inr []"
  then show "load_history read_csv to_datetime to_csv (Some c) = Inr (Some c, [])"
    by (simp add: load_history_def load_history_try_def ensure_history_csv_def split: sum.split)
next
  assume "read_csv c = Inr df \<and> to_datetime (map date df) = Inr ds"
  then show "load_history read_csv to_datetime to_csv (Some c)
        = Inr (Some c, map (\<lambda>(d, r). \<lparr>date = d, task = task r, status = status r\<rparr>) (zip ds df))"
    by (simp add: load_history_def load_history_try_def ensure_history_csv_def)
qed

theorem load_history_never_raises_witness:
  "load_history (\<lambda>c. case c of None \<Rightarrow> Inl () | Some rows \<Rightarrow> Inr rows)
       (\<lambda>col. if ascii ''bad'' \<in> set col then Inl ()
               else Inr (map (\<lambda>s. \<lparr>year = 2024, month = 1, day = 1\<rparr>) col))
       Some (Some None)
     = Inr (Some None, [])
   \<and> load_history (\<lambda>c. case c of None \<Rightarrow> Inl () | Some rows \<Rightarrow> Inr rows)
       (\<lambda>col. if ascii ''bad'' \<in> set col then Inl ()
               else Inr (map (\<lambda>s. \<lparr>year = 2024, month = 1, day = 1\<rparr>) col))
       Some (Some (Some [\<lparr>date = ascii ''bad'', task = ascii ''Z'', status = ascii ''incomplete''\<rparr>]))
     = Inr (Some (Some [\<lparr>date = ascii ''bad'', task = ascii ''Z'', status = ascii ''incomplete''\<rparr>]), [])
   \<and> load_history (\<lambda>c. case c of None \<Rightarrow> Inl () | Some rows \<Rightarrow> Inr rows)
       (\<lambda>col. if ascii ''bad'' \<in> set col then Inl ()
               else Inr (map (\<lambda>s. \<lparr>year = 2024, month = 1, day = 1\<rparr>) col))
       Some (Some (Some []))
     = Inr (Some (Some []), [])
   \<and> load_history (\<lambda>c. case c of None \<Rightarrow> Inl () | Some rows \<Rightarrow> Inr rows)
       (\<lambda>col. if ascii ''bad'' \<in> set col then Inl ()
               else Inr (map (\<lambda>s. \<lparr>year = 2024, month = 1, day = 1\<rparr>) col))
       Some (Some (Some [\<lparr>date = ascii ''2024-01-01'', task = ascii ''Z'', status = ascii ''incomplete''\<rparr>]))
     = Inr (Some (Some [\<lparr>date = ascii ''2024-01-01'', task = ascii ''Z'', status = ascii ''incomplete''\<rparr>]),
            [\<lparr>date = \<lparr>year = 2024, month = 1, day = 1\<rparr>, task = ascii ''Z'', status = ascii ''incomplete''\<rparr>])"
proof -
  let ?rd = "\<lambda>c :: ustring row list option. case c of None \<Rightarrow> (Inl () :: unit + ustring row list) | Some rows \<Rightarrow> Inr rows"
  let ?td = "\<lambda>col :: ustring list. if ascii ''bad'' \<in> set col then (Inl () :: unit + date list)
               else Inr (map (\<lambda>s. \<lparr>year = 2024, month = 1, day = 1\<rparr>) col)"
  let ?wr = "Some :: ustring row list \<Rightarrow> ustring row list option"
  let ?bad = "[\<lparr>date = ascii ''bad'', task = ascii ''Z'', status = ascii ''incomplete''\<rparr>]"
  let ?good = "[\<lparr>date = ascii ''2024-01-01'', task = ascii ''Z'', status = ascii ''incomplete''\<rparr>]"
  have h1: "?rd None = Inl ()" by simp
  have h2: "?rd (Some ?bad) = Inr ?bad \<and> ?td (map date ?bad) = Inl ()" by simp
  have h3: "?rd (Some []) = Inr []" by simp
  have h4: "?rd (Some ?good) = Inr ?good
            \<and> ?td (map date ?good) = Inr [\<lparr>year = 2024, month = 1, day = 1\<rparr>]"
    by (simp add: ascii_def)
  note a = load_history_never_raises [where read_csv = ?rd and to_datetime = ?td and to_csv = ?wr
      and c = None and e = "()", THEN conjunct2, THEN conjunct1, THEN mp, OF h1]
  note b = load_history_never_raises [where read_csv = ?rd and to_datetime = ?td and to_csv = ?wr
      and c = "Some ?bad" and df = ?bad and e = "()",
      THEN conjunct2, THEN conjunct2, THEN conjunct1, THEN mp, OF h2]
  note c = load_history_never_raises [where read_csv = ?rd and to_datetime = ?td and to_csv = ?wr
      and c = "Some []",
      THEN conjunct2, THEN conjunct2, THEN conjunct2, THEN conjunct1, THEN mp, OF h3]
  note d = load_history_never_raises [where read_csv = ?rd and to_datetime = ?td and to_csv = ?wr
      and c = "Some ?good" and df = ?good and ds = "[\<lparr>year = 2024, month = 1, day = 1\<rparr>]",
      THEN conjunct2, THEN conjunct2, THEN conjunct2, THEN conjunct2, THEN mp, OF h4]
  from d have d': "load_history ?rd ?td ?wr (Some (Some ?good))
     = Inr (Some (Some ?good),
            [\<lparr>date = \<lparr>year = 2024, month = 1, day = 1\<rparr>, task = ascii ''Z'', status = ascii ''incomplete''\<rparr>])"
    by simp
  from a b c d' show ?thesis by (intro conjI)
qed

section \<open>Range statistics\<close>

lemma summarize_range_Inr:
  "summarize_range df start end_date =
     Inr \<lparr>days_tracked = int (card (date ` {r \<in> set df. in_range start end_date r})),
          completed = int (length (filter (\<lambda>r. status r = ascii ''completed'') (filter (in_range start end_date) df))),
          incomplete = int (length (filter (\<lambda>r. status r = ascii ''incomplete'') (filter (in_range start end_date) df))),
          total = int (length (filter (\<lambda>r. status r = ascii ''completed'') (filter (in_range start end_date) df)))
                + int (length (filter (\<lambda>r. status r = ascii ''incomplete'') (filter (in_range start end_date) df))),
          completion_rate =
            (if length (filter (\<lambda>r. status r = ascii ''completed'') (filter (in_range start end_date) df))
                + length (filter (\<lambda>r. status r = ascii ''incomplete'') (filter (in_range start end_date) df)) = 0 then 0
             else real (length (filter (\<lambda>r. status r = ascii ''completed'') (filter (in_range start end_date) df)))
                  / real (length (filter (\<lambda>r. status r = ascii ''completed'') (filter (in_range start end_date) df))
                          + length (filter (\<lambda>r. status r = ascii ''incomplete'') (filter (in_range start end_date) df))) * 100)\<rparr>"
proof -
  have "length (remdups (map date (filter (in_range start end_date) df)))
        = card (date ` {r \<in> set df. in_range start end_date r})"
    by (simp add: length_remdups_card_conv)
  then show ?thesis
    by (simp add: summarize_range_def truediv_def Let_def)
qed

lemma count_rows:
  "length (filter Q (filter P df)) = card {i. i < length df \<and> P (df ! i) \<and> Q (df ! i)}"
proof -
  have "filter Q (filter P df) = filter (\<lambda>r. P r \<and> Q r) df" by simp
  then show ?thesis by (simp only: length_filter_conv_card)
qed

text \<open>
  Claim C1. \<open>summarize_range\<close> returns a result for every frame and every pair of dates.
  It counts the rows whose date lies between \<open>start\<close> and \<open>end_date\<close>, both ends
  included: \<open>completed\<close> and \<open>incomplete\<close> are the numbers of such rows with that
  status, \<open>total\<close> is their sum, and \<open>days_tracked\<close> is the number of distinct dates
  among such rows. For the three entries (d1, A, completed), (d1, B, incomplete),
  (d2, C, completed) with two different days inside the range, the result is 2, 1, 3,
  a rate within 0.01 of 66.67, and 2 days.
\<close>

theorem summarize_range_counts:
  "(\<exists>s. summarize_range df start end_date = Inr s
      \<and> completed s = int (card {i. i < length df \<and> (date_le start (date (df ! i)) \<and> date_le (date (df ! i)) end_date)
                                     \<and> status (df ! i) = ascii ''completed''})
      \<and> incomplete s = int (card {i. i < length df \<and> (date_le start (date (df ! i)) \<and> date_le (date (df ! i)) end_date)
                                     \<and> status (df ! i) = ascii ''incomplete''})
      \<and> total s = completed s + incomplete s
      \<and> days_tracked s = int (card {d. \<exists>r \<in> set df. date r = d \<and> date_le start d \<and> date_le d end_date}))
   \<and> (date_le start d1 \<and> date_le d1 end_date \<and> date_le start d2 \<and> date_le d2 end_date \<and> d1 \<noteq> d2 \<longrightarrow>
       (\<exists>s. summarize_range
               [\<lparr>date = d1, task = ascii ''A'', status = ascii ''completed''\<rparr>,
                \<lparr>date = d1, task = ascii ''B'', status = ascii ''incomplete''\<rparr>,
                \<lparr>date = d2, task = ascii ''C'', status = ascii ''completed''\<rparr>] start end_date = Inr s
          \<and> completed s = 2 \<and> incomplete s = 1 \<and> total s = 3
          \<and> \<bar>completion_rate s - 66.67\<bar> \<le> 0.01 \<and> days_tracked s = 2))"
proof (intro conjI impI)
  have days: "date ` {r \<in> set df. in_range start end_date r}
              = {d. \<exists>r \<in> set df. date r = d \<and> date_le start d \<and> date_le d end_date}"
    by (auto simp: in_range_def)
  show "\<exists>s. summarize_range df start end_date = Inr s
      \<and> completed s = int (card {i. i < length df \<and> (date_le start (date (df ! i)) \<and> date_le (date (df ! i)) end_date)
                                     \<and> status (df ! i) = ascii ''completed''})
      \<and> incomplete s = int (card {i. i < length df \<and> (date_le start (date (df ! i)) \<and> date_le (date (df ! i)) end_date)
                                     \<and> status (df ! i) = ascii ''incomplete''})
      \<and> total s = completed s + incomplete s
      \<and> days_tracked s = int (card {d. \<exists>r \<in> set df. date r = d \<and> date_le start d \<and> date_le d end_date})"
    unfolding summarize_range_Inr count_rows days
    by (simp add: in_range_def)
next
  assume "date_le start d1 \<and> date_le d1 end_date \<and> date_le start d2 \<and> date_le d2 end_date \<and> d1 \<noteq> d2"
  then show "\<exists>s. summarize_range
               [\<lparr>date = d1, task = ascii ''A'', status = ascii ''completed''\<rparr>,
                \<lparr>date = d1, task = ascii ''B'', status = ascii ''incomplete''\<rparr>,
                \<lparr>date = d2, task = ascii ''C'', status = ascii ''completed''\<rparr>] start end_date = Inr s
          \<and> completed s = 2 \<and> incomplete s = 1 \<and> total s = 3
          \<and> \<bar>completion_rate s - 66.67\<bar> \<le> 0.01 \<and> days_tracked s = 2"
    by (simp add: summarize_range_def truediv_def in_range_def ascii_def)
qed

theorem summarize_range_counts_witness:
  "date_le \<lparr>year = 2024, month = 1, day = 1\<rparr> \<lparr>year = 2024, month = 1, day = 1\<rparr>
   \<and> date_le \<lparr>year = 2024, month = 1, day = 1\<rparr> \<lparr>year = 2024, month = 1, day = 7\<rparr>
   \<and> date_le \<lparr>year = 2024, month = 1, day = 1\<rparr> \<lparr>year = 2024, month = 1, day = 3\<rparr>
   \<and> date_le \<lparr>year = 2024, month = 1, day = 3\<rparr> \<lparr>year = 2024, month = 1, day = 7\<rparr>
   \<and> \<lparr>year = 2024, month = 1, day = 1\<rparr> \<noteq> \<lparr>year = 2024, month = 1, day = (3::nat)\<rparr>
   \<and> (\<exists>s. summarize_range
               [\<lparr>date = \<lparr>year = 2024, month = 1, day = 1\<rparr>, task = ascii ''A'', status = ascii ''completed''\<rparr>,
                \<lparr>date = \<lparr>year = 2024, month = 1, day = 1\<rparr>, task = ascii ''B'', status = ascii ''incomplete''\<rparr>,
                \<lparr>date = \<lparr>year = 2024, month = 1, day = 3\<rparr>, task = ascii ''C'', status = ascii ''completed''\<rparr>]
               \<lparr>year = 2024, month = 1, day = 1\<rparr> \<lparr>year = 2024, month = 1, day = 7\<rparr> = Inr s
          \<and> completed s = 2 \<and> incomplete s = 1 \<and> total s = 3
          \<and> \<bar>completion_rate s - 66.67\<bar> \<le> 0.01 \<and> days_tracked s = 2)"
proof -
  have h: "date_le \<lparr>year = 2024, month = 1, day = 1\<rparr> \<lparr>year = 2024, month = 1, day = 1\<rparr>
   \<and> date_le \<lparr>year = 2024, month = 1, day = 1\<rparr> \<lparr>year = 2024, month = 1, day = 7\<rparr>
   \<and> date_le \<lparr>year = 2024, month = 1, day = 1\<rparr> \<lparr>year = 2024, month = 1, day = 3\<rparr>
   \<and> date_le \<lparr>year = 2024, month = 1, day = 3\<rparr> \<lparr>year = 2024, month = 1, day = 7\<rparr>
   \<and> \<lparr>year = 2024, month = 1, day = 1\<rparr> \<noteq> \<lparr>year = 2024, month = 1, day = (3::nat)\<rparr>"
    by (simp add: date_le_def)
  from summarize_range_counts [of "[]" "\<lparr>year = 2024, month = 1, day = 1\<rparr>" "\<lparr>year = 2024, month = 1, day = 7\<rparr>"
         "\<lparr>year = 2024, month = 1, day = 1\<rparr>" "\<lparr>year = 2024, month = 1, day = 3\<rparr>"] h
  show ?thesis by blast
qed

lemma rate_bounds:
  fixes c i :: nat
  defines "q \<equiv> (if c + i = 0 then 0 else real c / real (c + i) * 100)"
  shows "0 \<le> q" and "q \<le> 100"
    and "0 < int c + int i \<longrightarrow> q = real_of_int (int c) / real_of_int (int c + int i) * 100"
    and "int c + int i = 0 \<longrightarrow> q = 0"
proof -
  show "0 \<le> q" by (simp add: q_def)
  show "q \<le> 100"
  proof (cases "c + i = 0")
    case True
    then show ?thesis by (simp add: q_def)
  next
    case False
    then have "0 < c + i" by simp
    then have pos: "0 < real (c + i)" by (simp only: of_nat_0_less_iff)
    have "real c \<le> real (c + i)" by simp
    then have "real c / real (c + i) \<le> 1"
      by (simp only: divide_le_eq_1_pos [OF pos])
    then have "real c / real (c + i) * 100 \<le> 1 * 100"
      by (rule mult_right_mono) simp
    then have "real c / real (c + i) * 100 \<le> 100" by (simp only: mult_1)
    moreover from False have "q = real c / real (c + i) * 100" by (simp only: q_def if_False)
    ultimately show ?thesis by (simp only:)
  qed
  show "0 < int c + int i \<longrightarrow> q = real_of_int (int c) / real_of_int (int c + int i) * 100"
  proof
    assume "0 < int c + int i"
    then have "c + i \<noteq> 0" by linarith
    then show "q = real_of_int (int c) / real_of_int (int c + int i) * 100"
      by (simp add: q_def)
  qed
  show "int c + int i = 0 \<longrightarrow> q = 0"
    by (simp add: q_def)
qed

text \<open>
  Claim C5. \<open>summarize_range\<close> never fails with a division by zero. All counts are
  non-negative and the rate lies between 0 and 100; the rate is
  \<open>completed / (completed + incomplete) * 100\<close> when the denominator is positive and 0
  when it is zero. When no row falls in the range, all four counts and the rate are 0.
\<close>

theorem summarize_range_rate:
  "\<exists>s. summarize_range df start end_date = Inr s
     \<and> 0 \<le> days_tracked s \<and> 0 \<le> completed s \<and> 0 \<le> incomplete s \<and> 0 \<le> total s
     \<and> 0 \<le> completion_rate s \<and> completion_rate s \<le> 100
     \<and> (0 < completed s + incomplete s \<longrightarrow>
          completion_rate s = real_of_int (completed s) / real_of_int (completed s + incomplete s) * 100)
     \<and> (completed s + incomplete s = 0 \<longrightarrow> completion_rate s = 0)
     \<and> ((\<forall>r \<in> set df. \<not> (date_le start (date r) \<and> date_le (date r) end_date)) \<longrightarrow>
          s = \<lparr>days_tracked = 0, completed = 0, incomplete = 0, total = 0, completion_rate = 0\<rparr>)"
proof -
  let ?sub = "filter (in_range start end_date) df"
  let ?c = "length (filter (\<lambda>r. status r = ascii ''completed'') ?sub)"
  let ?i = "length (filter (\<lambda>r. status r = ascii ''incomplete'') ?sub)"
  let ?s = "\<lparr>days_tracked = int (card (date ` {r \<in> set df. in_range start end_date r})),
             completed = int ?c, incomplete = int ?i, total = int ?c + int ?i,
             completion_rate = (if ?c + ?i = 0 then 0 else real ?c / real (?c + ?i) * 100)\<rparr>"
  have eq: "summarize_range df start end_date = Inr ?s"
    by (rule summarize_range_Inr)
  have rate_le: "completion_rate ?s \<le> 100"
    using rate_bounds(2) [of ?c ?i] by (simp only: stats.simps)
  have rate_ge: "0 \<le> completion_rate ?s"
    using rate_bounds(1) [of ?c ?i] by (simp only: stats.simps)
  have rate_eq: "0 < completed ?s + incomplete ?s \<longrightarrow>
          completion_rate ?s = real_of_int (completed ?s) / real_of_int (completed ?s + incomplete ?s) * 100"
    using rate_bounds(3) [of ?c ?i] by (simp only: stats.simps)
  have rate_zero: "completed ?s + incomplete ?s = 0 \<longrightarrow> completion_rate ?s = 0"
    using rate_bounds(4) [of ?c ?i] by (simp only: stats.simps)
  have empty: "?s = \<lparr>days_tracked = 0, completed = 0, incomplete = 0, total = 0, completion_rate = 0\<rparr>"
    if "\<forall>r \<in> set df. \<not> (date_le start (date r) \<and> date_le (date r) end_date)"
  proof -
    from that have "?sub = []" by (simp add: filter_empty_conv in_range_def)
    moreover from that have "{r \<in> set df. in_range start end_date r} = {}"
      by (auto simp: in_range_def)
    ultimately show ?thesis by simp
  qed
  have nonneg: "0 \<le> days_tracked ?s \<and> 0 \<le> completed ?s \<and> 0 \<le> incomplete ?s \<and> 0 \<le> total ?s"
    by simp
  show ?thesis
    using eq nonneg rate_ge rate_le rate_eq rate_zero empty by blast
qed

theorem summarize_range_rate_witness:
  "(\<exists>s. summarize_range
          [\<lparr>date = \<lparr>year = 2024, month = 1, day = 2\<rparr>, task = ascii ''A'', status = ascii ''completed''\<rparr>]
          \<lparr>year = 2024, month = 1, day = 1\<rparr> \<lparr>year = 2024, month = 1, day = 7\<rparr> = Inr s
        \<and> 0 < completed s + incomplete s \<and> completion_rate s = 100)
   \<and> \<not> (date_le \<lparr>year = 2024, month = 2, day = 1\<rparr> \<lparr>year = 2024, month = 1, day = 2\<rparr>
          \<and> date_le \<lparr>year = 2024, month = 1, day = 2\<rparr> \<lparr>year = 2024, month = 2, day = 7\<rparr>)
   \<and> summarize_range
          [\<lparr>date = \<lparr>year = 2024, month = 1, day = 2\<rparr>, task = ascii ''A'', status = ascii ''completed''\<rparr>]
          \<lparr>year = 2024, month = 2, day = 1\<rparr> \<lparr>year = 2024, month = 2, day = 7\<rparr>
       = Inr \<lparr>days_tracked = 0, completed = 0, incomplete = 0, total = 0, completion_rate = 0\<rparr>"
proof -
  let ?df = "[\<lparr>date = \<lparr>year = 2024, month = 1, day = 2\<rparr>, task = ascii ''A'', status = ascii ''completed''\<rparr>]"
  have out: "\<not> (date_le \<lparr>year = 2024, month = 2, day = 1\<rparr> \<lparr>year = 2024, month = 1, day = 2\<rparr>
          \<and> date_le \<lparr>year = 2024, month = 1, day = 2\<rparr> \<lparr>year = 2024, month = 2, day = 7\<rparr>)"
    by (simp add: date_le_def)
  then have h: "\<forall>r \<in> set ?df.
         \<not> (date_le \<lparr>year = 2024, month = 2, day = 1\<rparr> (date r) \<and> date_le (date r) \<lparr>year = 2024, month = 2, day = 7\<rparr>)"
    by simp
  have pos: "summarize_range ?df \<lparr>year = 2024, month = 1, day = 1\<rparr> \<lparr>year = 2024, month = 1, day = 7\<rparr>
             = Inr \<lparr>days_tracked = 1, completed = 1, incomplete = 0, total = 1, completion_rate = 100\<rparr>"
    by (simp add: summarize_range_def truediv_def in_range_def date_le_def ascii_def)
  from summarize_range_rate [of ?df "\<lparr>year = 2024, month = 1, day = 1\<rparr>" "\<lparr>year = 2024, month = 1, day = 7\<rparr>"] pos
  have a: "\<exists>s. summarize_range ?df \<lparr>year = 2024, month = 1, day = 1\<rparr> \<lparr>year = 2024, month = 1, day = 7\<rparr> = Inr s
        \<and> 0 < completed s + incomplete s \<and> completion_rate s = 100"
    by auto
  from summarize_range_rate [of ?df "\<lparr>year = 2024, month = 2, day = 1\<rparr>" "\<lparr>year = 2024, month = 2, day = 7\<rparr>"] h
  have b: "summarize_range ?df \<lparr>year = 2024, month = 2, day = 1\<rparr> \<lparr>year = 2024, month = 2, day = 7\<rparr>
       = Inr \<lparr>days_tracked = 0, completed = 0, incomplete = 0, total = 0, completion_rate = 0\<rparr>"
    by blast
  from a out b show ?thesis by (intro conjI)
qed

end
